theory Spec2Isabelle
  imports Main "HOL-Library.Multiset" "HOL-Library.Sublist"
begin

section \<open>The accessibility audit server (src/index.js)\<close>

text \<open>
  The server answers two tool calls, \<open>audit_webpage\<close> and \<open>get_summary\<close>. Each one
  checks its arguments, drives a headless browser (puppeteer) to the page, runs the rule
  engine (axe) on it, closes the browser and reshapes the engine's result into a JSON text.
  The browser and the rule engine are outside the program: they are an environment that
  fixes what each awaited call does, and every call the program makes is written to a trace.
\<close>

subsection \<open>Values and requests\<close>

text \<open>
  The values that pass through the program unchanged and the objects it builds for
  \<open>JSON.stringify\<close>. A property of an object may hold \<open>undefined\<close>; the order of the
  properties is the order in which the object literal lists them.
\<close>

datatype jsval =
    JUndefined
  | JNull
  | JBool bool
  | JNum int
  | JStr string
  | JArr "jsval list"
  | JObj "(string \<times> jsval) list"

text \<open>
  The arguments of a tool call, as the input schema of \<open>setupToolHandlers\<close> declares them:
  \<open>url\<close> a string, \<open>includeHtml\<close> a boolean, \<open>tags\<close> an array of strings. \<open>None\<close> is an
  argument that the request does not carry.
\<close>

record args =
  url :: "string option"
  includeHtml :: "bool option"
  tags :: "string list option"

text \<open>
  The result of the rule engine. Of a violation the program reads \<open>id\<close>, \<open>impact\<close>,
  \<open>description\<close>, \<open>helpUrl\<close> and \<open>nodes\<close>; of a node \<open>impact\<close>, \<open>target\<close>,
  \<open>failureSummary\<close> and \<open>html\<close>. The impact of a violation is a string, \<open>null\<close>, or
  missing (reading it gives \<open>undefined\<close>); the other fields are only copied. Of
  \<open>passes\<close>, \<open>incomplete\<close> and \<open>inapplicable\<close> only the lengths are read.
\<close>

datatype impact_t = Severity string | NullImpact | NoImpact

record axe_node =
  node_impact :: jsval
  target :: jsval
  failureSummary :: jsval
  html :: jsval

record axe_violation =
  id' :: jsval
  impact :: impact_t
  description :: jsval
  helpUrl :: jsval
  nodes :: "axe_node list"

record axe_results =
  violations :: "axe_violation list"
  passes :: "jsval list"
  incomplete :: "jsval list"
  inapplicable :: "jsval list"

text \<open>The options handed to the rule engine: \<open>runOnly\<close> is absent or \<open>{type, values}\<close>.\<close>

record axe_options =
  runOnly :: "(string \<times> string list) option"

subsection \<open>Faults, responses and the environment\<close>

text \<open>
  What a handler throws to the protocol layer: an \<open>McpError\<close> with its code and text, or
  the \<open>TypeError\<close> of reading a property of \<open>undefined\<close> or \<open>null\<close>: \<open>args.url\<close> when
  the request carries no arguments object, \<open>error.message\<close> when that is what was caught.
\<close>

datatype error_code = InvalidParams | MethodNotFound

datatype fault = McpError error_code string | TypeError

text \<open>
  What an awaited call may reject with, and what the \<open>catch\<close> block then finds: an object
  whose \<open>message\<close> is a string, as every \<open>Error\<close> object is; \<open>null\<close> or \<open>undefined\<close>,
  of which reading \<open>message\<close> throws a \<open>TypeError\<close>; or a boolean, a number or a string,
  which has no \<open>message\<close>, so that the template literal prints \<open>undefined\<close>. Objects
  whose \<open>message\<close> is not a string are left out.
\<close>

datatype thrown = Error string | ThrownNull | ThrownUndefined | ThrownPrimitive

text \<open>The text of \<open>${error.message}\<close>, or what evaluating it throws.\<close>

definition message :: "thrown \<Rightarrow> fault + string" where
  "message error =
     (case error of
        Error m \<Rightarrow> Inr m
      | ThrownNull \<Rightarrow> Inl TypeError
      | ThrownUndefined \<Rightarrow> Inl TypeError
      | ThrownPrimitive \<Rightarrow> Inr ''undefined'')"

datatype content_item = Text string

text \<open>A tool response; \<open>isError\<close> is \<open>False\<close> where the source leaves the property out.\<close>

record response =
  content :: "content_item list"
  isError :: bool

text \<open>
  The environment gives the outcome of each awaited call (\<open>Inl\<close>: it throws), the clock
  (\<open>new Date().toISOString()\<close>) and \<open>JSON.stringify(_, null, 2)\<close>.
\<close>

record env =
  launch :: "thrown + unit"
  newPage :: "thrown + unit"
  setViewport :: "thrown + unit"
  goto :: "string \<Rightarrow> thrown + unit"
  analyze :: "string \<Rightarrow> axe_options option \<Rightarrow> thrown + axe_results"
  close :: "thrown + unit"
  now :: string
  stringify :: "jsval \<Rightarrow> string"

text \<open>
  The calls a handler makes on the browser and the engine. The trace lists them in order,
  each with whether it resolved.
\<close>

datatype call =
    Launch
  | NewPage
  | SetViewport nat nat
  | Goto string nat
  | Analyze "axe_options option"
  | Close

type_synonym trace = "(call \<times> bool) list"

type_synonym ('e, 'a) action = "trace \<Rightarrow> ('e + 'a) \<times> trace"

definition await :: "call \<Rightarrow> thrown + 'a \<Rightarrow> (thrown, 'a) action" where
  "await c r tr = (r, tr @ [(c, \<not> isl r)])"

definition return :: "'a \<Rightarrow> ('e, 'a) action" where
  "return x tr = (Inr x, tr)"

definition throw :: "'e \<Rightarrow> ('e, 'a) action" where
  "throw e tr = (Inl e, tr)"

definition bind :: "('e, 'a) action \<Rightarrow> ('a \<Rightarrow> ('e, 'b) action) \<Rightarrow> ('e, 'b) action" where
  "bind m f tr = (case m tr of (Inl e, tr') \<Rightarrow> (Inl e, tr') | (Inr x, tr') \<Rightarrow> f x tr')"

definition try_catch :: "('e, 'a) action \<Rightarrow> ('e \<Rightarrow> ('f, 'a) action) \<Rightarrow> ('f, 'a) action" where
  "try_catch m h tr = (case m tr of (Inl e, tr') \<Rightarrow> h e tr' | (Inr x, tr') \<Rightarrow> (Inr x, tr'))"

subsection \<open>The audit operation\<close>

text \<open>
  The object \<open>formattedNode\<close>: three copied properties and, when \<open>args.includeHtml\<close> is
  truthy, the node's markup.
\<close>

definition formattedNode :: "args \<Rightarrow> axe_node \<Rightarrow> jsval" where
  "formattedNode a node =
     JObj ([(''impact'', node_impact node),
            (''target'', target node),
            (''failureSummary'', failureSummary node)]
           @ (if includeHtml a = Some True then [(''html'', html node)] else []))"

definition impact_value :: "impact_t \<Rightarrow> jsval" where
  "impact_value i =
     (case i of Severity s \<Rightarrow> JStr s | NullImpact \<Rightarrow> JNull | NoImpact \<Rightarrow> JUndefined)"

definition formattedViolation :: "args \<Rightarrow> axe_violation \<Rightarrow> jsval" where
  "formattedViolation a violation =
     JObj [(''id'', id' violation),
           (''impact'', impact_value (impact violation)),
           (''description'', description violation),
           (''helpUrl'', helpUrl violation),
           (''nodes'', JArr (map (formattedNode a) (nodes violation)))]"

definition formattedResults :: "env \<Rightarrow> args \<Rightarrow> string \<Rightarrow> axe_results \<Rightarrow> jsval" where
  "formattedResults e a u results =
     JObj [(''url'', JStr u),
           (''timestamp'', JStr (now e)),
           (''violations'', JArr (map (formattedViolation a) (violations results))),
           (''passes'', JNum (int (length (passes results)))),
           (''incomplete'', JNum (int (length (incomplete results)))),
           (''inapplicable'', JNum (int (length (inapplicable results))))]"

text \<open>
  \<open>axeOptions\<close> starts empty and gets \<open>runOnly\<close> when \<open>args.tags\<close> is a non-empty array.
\<close>

definition axeOptions :: "args \<Rightarrow> axe_options" where
  "axeOptions a =
     (case tags a of
        None \<Rightarrow> \<lparr>runOnly = None\<rparr>
      | Some ts \<Rightarrow> if length ts > 0 then \<lparr>runOnly = Some (''tag'', ts)\<rparr> else \<lparr>runOnly = None\<rparr>)"

text \<open>
  The body of the \<open>try\<close> block of \<open>auditWebpage\<close>, for a truthy \<open>args.url\<close>: launch, new
  page, viewport 1280 by 800, navigation (\<open>networkidle2\<close>, 30000 ms), the engine, close,
  and the report.
\<close>

definition auditWebpage_try :: "env \<Rightarrow> args \<Rightarrow> string \<Rightarrow> (thrown, response) action" where
  "auditWebpage_try e a u =
     bind (await Launch (launch e)) (\<lambda>browser.
     bind (await NewPage (newPage e)) (\<lambda>page.
     bind (await (SetViewport 1280 800) (setViewport e)) (\<lambda>_.
     bind (await (Goto u 30000) (goto e u)) (\<lambda>_.
     bind (await (Analyze (Some (axeOptions a))) (analyze e u (Some (axeOptions a)))) (\<lambda>results.
     bind (await Close (close e)) (\<lambda>_.
     return \<lparr>content = [Text (stringify e (formattedResults e a u results))],
             isError = False\<rparr>))))))"

definition auditWebpage_catch :: "thrown \<Rightarrow> (fault, response) action" where
  "auditWebpage_catch error =
     (case message error of
        Inl typeError \<Rightarrow> throw typeError
      | Inr m \<Rightarrow>
          return \<lparr>content = [Text (''Error auditing webpage: '' @ m)], isError = True\<rparr>)"

text \<open>\<open>!args.url\<close> holds for a missing \<open>url\<close> and for the empty string.\<close>

definition auditWebpage :: "env \<Rightarrow> args option \<Rightarrow> (fault + response) \<times> trace" where
  "auditWebpage e arguments =
     (case arguments of
        None \<Rightarrow> throw TypeError []
      | Some a \<Rightarrow>
          (case url a of
             None \<Rightarrow> throw (McpError InvalidParams ''URL is required'') []
           | Some u \<Rightarrow>
               if u = [] then throw (McpError InvalidParams ''URL is required'') []
               else try_catch (auditWebpage_try e a u) auditWebpage_catch []))"

subsection \<open>Sorting an array with a comparator\<close>

text \<open>
  \<open>impactOrder[x.impact]\<close>: the table has four keys. Any other key, \<open>null\<close> and
  \<open>undefined\<close> included, gives no number (\<open>undefined\<close>, or a member inherited from
  \<open>Object.prototype\<close>), and a subtraction with such an operand is \<open>NaN\<close>, here \<open>None\<close>.
\<close>

definition impactOrder :: "impact_t \<Rightarrow> int option" where
  "impactOrder i =
     (if i = Severity ''critical'' then Some 0
      else if i = Severity ''serious'' then Some 1
      else if i = Severity ''moderate'' then Some 2
      else if i = Severity ''minor'' then Some 3
      else None)"

definition compare_impact :: "axe_violation \<Rightarrow> axe_violation \<Rightarrow> int option" where
  "compare_impact a b =
     (case impactOrder (impact a) of
        None \<Rightarrow> None
      | Some x \<Rightarrow> (case impactOrder (impact b) of None \<Rightarrow> None | Some y \<Rightarrow> Some (x - y)))"

text \<open>
  \<open>Array.prototype.sort\<close> takes the comparator's result as a number and a \<open>NaN\<close> as \<open>+0\<close>.
\<close>

definition sort_compare :: "('a \<Rightarrow> 'a \<Rightarrow> int option) \<Rightarrow> 'a \<Rightarrow> 'a \<Rightarrow> int" where
  "sort_compare comparefn x y = (case comparefn x y of None \<Rightarrow> 0 | Some v \<Rightarrow> v)"

text \<open>
  \<open>results.violations.sort(...)\<close> is the built-in sort of the language, which the
  repository runs on Node's engine. It is modelled as that engine sorts an array of fewer
  than 64 elements: the run at the start of the array is measured (non-descending, or
  strictly descending and then reversed), and each element after it is put into the
  sorted part at the place a binary search finds (\<open>mid\<close> always lies inside the sorted
  part). On a longer array the engine also merges runs; ECMAScript fixes the result only
  for a consistent comparator, and then it is the stable sort, whatever the length and the
  engine (\<open>sort_js_sort_key\<close> below). The sort works in place, after the total and the
  buckets have been counted.
\<close>

fun count_run :: "('a \<Rightarrow> 'a \<Rightarrow> int) \<Rightarrow> bool \<Rightarrow> 'a \<Rightarrow> 'a list \<Rightarrow> nat" where
  "count_run order isDescending previous [] = 0"
| "count_run order isDescending previous (current # rest) =
     (if (if isDescending then order current previous \<ge> 0 else order current previous < 0)
      then 0
      else Suc (count_run order isDescending current rest))"

definition count_and_make_run :: "('a \<Rightarrow> 'a \<Rightarrow> int) \<Rightarrow> 'a list \<Rightarrow> 'a list \<times> nat" where
  "count_and_make_run order work =
     (case work of
        elementHigh # elementLow # rest \<Rightarrow>
          (let isDescending = order elementLow elementHigh < 0;
               runLength = 2 + count_run order isDescending elementLow rest
           in (if isDescending then rev (take runLength work) @ drop runLength work else work,
               runLength))
      | _ \<Rightarrow> (work, length work))"

function insertion_point :: "('a \<Rightarrow> 'a \<Rightarrow> int) \<Rightarrow> 'a \<Rightarrow> 'a list \<Rightarrow> nat \<Rightarrow> nat \<Rightarrow> nat" where
  "insertion_point order pivot work left right =
     (if left < right then
        (let mid = left + (right - left) div 2
         in if order pivot (work ! mid) < 0
            then insertion_point order pivot work left mid
            else insertion_point order pivot work (mid + 1) right)
      else left)"
  by pat_completeness auto
termination
  by (relation "measure (\<lambda>(order, pivot, work, left, right). right - left)") auto

declare insertion_point.simps [simp del]

fun binary_insertion_sort :: "('a \<Rightarrow> 'a \<Rightarrow> int) \<Rightarrow> 'a list \<Rightarrow> 'a list \<Rightarrow> 'a list" where
  "binary_insertion_sort order work [] = work"
| "binary_insertion_sort order work (pivot # rest) =
     (let left = insertion_point order pivot work 0 (length work)
      in binary_insertion_sort order (take left work @ pivot # drop left work) rest)"

definition sort_js :: "('a \<Rightarrow> 'a \<Rightarrow> int option) \<Rightarrow> 'a list \<Rightarrow> 'a list" where
  "sort_js comparefn xs =
     (if length xs < 2 then xs
      else
        (let (work, runLength) = count_and_make_run (sort_compare comparefn) xs
         in binary_insertion_sort (sort_compare comparefn)
              (take runLength work) (drop runLength work)))"

subsection \<open>The summary operation\<close>

definition topIssue :: "axe_violation \<Rightarrow> jsval" where
  "topIssue violation =
     JObj [(''id'', id' violation),
           (''impact'', impact_value (impact violation)),
           (''description'', description violation),
           (''helpUrl'', helpUrl violation)]"

definition count_impact :: "string \<Rightarrow> axe_violation list \<Rightarrow> nat" where
  "count_impact s vs = length (filter (\<lambda>v. impact v = Severity s) vs)"

definition issuesBySeverity :: "axe_violation list \<Rightarrow> jsval" where
  "issuesBySeverity vs =
     JObj [(''critical'', JNum (int (count_impact ''critical'' vs))),
           (''serious'', JNum (int (count_impact ''serious'' vs))),
           (''moderate'', JNum (int (count_impact ''moderate'' vs))),
           (''minor'', JNum (int (count_impact ''minor'' vs)))]"

definition topIssues :: "axe_violation list \<Rightarrow> axe_violation list" where
  "topIssues vs = take 5 (sort_js compare_impact vs)"

definition summary :: "env \<Rightarrow> string \<Rightarrow> axe_results \<Rightarrow> jsval" where
  "summary e u results =
     JObj [(''url'', JStr u),
           (''timestamp'', JStr (now e)),
           (''totalIssues'', JNum (int (length (violations results)))),
           (''issuesBySeverity'', issuesBySeverity (violations results)),
           (''topIssues'', JArr (map topIssue (topIssues (violations results)))),
           (''passedTests'', JNum (int (length (passes results)))),
           (''incompleteTests'', JNum (int (length (incomplete results))))]"

text \<open>
  The body of the \<open>try\<close> block of \<open>getSummary\<close>: as in the audit, but the engine runs
  without options.
\<close>

definition getSummary_try :: "env \<Rightarrow> string \<Rightarrow> (thrown, response) action" where
  "getSummary_try e u =
     bind (await Launch (launch e)) (\<lambda>browser.
     bind (await NewPage (newPage e)) (\<lambda>page.
     bind (await (SetViewport 1280 800) (setViewport e)) (\<lambda>_.
     bind (await (Goto u 30000) (goto e u)) (\<lambda>_.
     bind (await (Analyze None) (analyze e u None)) (\<lambda>results.
     bind (await Close (close e)) (\<lambda>_.
     return \<lparr>content = [Text (stringify e (summary e u results))], isError = False\<rparr>))))))"

definition getSummary_catch :: "thrown \<Rightarrow> (fault, response) action" where
  "getSummary_catch error =
     (case message error of
        Inl typeError \<Rightarrow> throw typeError
      | Inr m \<Rightarrow>
          return \<lparr>content = [Text (''Error getting summary: '' @ m)], isError = True\<rparr>)"

definition getSummary :: "env \<Rightarrow> args option \<Rightarrow> (fault + response) \<times> trace" where
  "getSummary e arguments =
     (case arguments of
        None \<Rightarrow> throw TypeError []
      | Some a \<Rightarrow>
          (case url a of
             None \<Rightarrow> throw (McpError InvalidParams ''URL is required'') []
           | Some u \<Rightarrow>
               if u = [] then throw (McpError InvalidParams ''URL is required'') []
               else try_catch (getSummary_try e u) getSummary_catch []))"

subsection \<open>Reading objects, and a sample run\<close>

text \<open>\<open>get v k\<close> is the own property \<open>k\<close> of the object \<open>v\<close>, when it has one.\<close>

definition get :: "jsval \<Rightarrow> string \<Rightarrow> jsval option" where
  "get v k = (case v of JObj props \<Rightarrow> map_of props k | _ \<Rightarrow> None)"

text \<open>
  A page with one critical violation on two nodes, a browser and an engine that work, and
  a request that sets every argument.
\<close>

definition example_node :: axe_node where
  "example_node =
     \<lparr>node_impact = JStr ''serious'', target = JArr [JStr ''#logo''],
      failureSummary = JStr ''Fix any of the following: Element has no alt attribute'',
      html = JStr ''<img src=logo.png>''\<rparr>"

definition example_violation :: axe_violation where
  "example_violation =
     \<lparr>id' = JStr ''image-alt'', impact = Severity ''critical'',
      description = JStr ''Images must have alternate text'',
      helpUrl = JStr ''https://dequeuniversity.com/rules/axe/4.8/image-alt'',
      nodes = [example_node, example_node\<lparr>target := JArr [JStr ''#hero'']\<rparr>]\<rparr>"

definition example_results :: axe_results where
  "example_results =
     \<lparr>violations = [example_violation], passes = [JNull, JNull],
      incomplete = [JNull], inapplicable = []\<rparr>"

definition example_env :: env where
  "example_env =
     \<lparr>launch = Inr (), newPage = Inr (), setViewport = Inr (),
      goto = (\<lambda>u. Inr ()), analyze = (\<lambda>u opts. Inr example_results), close = Inr (),
      now = ''2024-01-01T00:00:00.000Z'', stringify = (\<lambda>v. ''{}'')\<rparr>"

definition example_args :: args where
  "example_args =
     \<lparr>url = Some ''https://example.com'', includeHtml = Some True,
      tags = Some [''wcag2aa'']\<rparr>"

text \<open>
  The reading of "the report echoes the request back" that covers every request field:
  each argument the request carries is a property of the report, with the same value.
\<close>

definition request_object :: "args \<Rightarrow> (string \<times> jsval) list" where
  "request_object a =
     (case url a of None \<Rightarrow> [] | Some u \<Rightarrow> [(''url'', JStr u)])
     @ (case includeHtml a of None \<Rightarrow> [] | Some b \<Rightarrow> [(''includeHtml'', JBool b)])
     @ (case tags a of None \<Rightarrow> [] | Some ts \<Rightarrow> [(''tags'', JArr (map JStr ts))])"

definition echoes_request :: "jsval \<Rightarrow> args \<Rightarrow> bool" where
  "echoes_request report a = list_all (\<lambda>(k, v). get report k = Some v) (request_object a)"

text \<open>
  The four severities that the summary counts and ranks, and the reading of "the sequence
  is non-decreasing in the severity rank" that asks least: of two violations that both
  have a rank, the earlier one never has the greater rank.
\<close>

definition recognized :: "axe_violation \<Rightarrow> bool" where
  "recognized v =
     (impact v \<in> {Severity ''critical'', Severity ''serious'', Severity ''moderate'', Severity ''minor''})"

definition rank_nondecreasing :: "axe_violation list \<Rightarrow> bool" where
  "rank_nondecreasing vs =
     sorted_wrt
       (\<lambda>a b. case impactOrder (impact a) of
                None \<Rightarrow> True
              | Some x \<Rightarrow> (case impactOrder (impact b) of None \<Rightarrow> True | Some y \<Rightarrow> x \<le> y))
       vs"

text \<open>Sample violations by rule and impact, and a page with seven of them.\<close>

definition example_issue :: "string \<Rightarrow> impact_t \<Rightarrow> axe_violation" where
  "example_issue rule i =
     \<lparr>id' = JStr rule, impact = i, description = JStr rule, helpUrl = JNull, nodes = []\<rparr>"

definition busy_results :: axe_results where
  "busy_results =
     \<lparr>violations =
        [example_issue ''region'' (Severity ''moderate''),
         example_issue ''image-alt'' (Severity ''critical''),
         example_issue ''color-contrast'' (Severity ''serious''),
         example_issue ''meta-viewport'' (Severity ''minor''),
         example_issue ''label'' (Severity ''critical''),
         example_issue ''link-name'' (Severity ''serious''),
         example_issue ''landmark-one-main'' (Severity ''moderate'')],
      passes = [JNull], incomplete = [], inapplicable = []\<rparr>"

definition busy_env :: env where
  "busy_env = example_env\<lparr>analyze := (\<lambda>u opts. Inr busy_results)\<rparr>"

text \<open>The rank of a violation, for a violation that has one.\<close>

definition severity_rank :: "axe_violation \<Rightarrow> int" where
  "severity_rank v = (case impactOrder (impact v) of None \<Rightarrow> 0 | Some x \<Rightarrow> x)"

text \<open>A page on which a rule without impact stands between a minor and a critical one.\<close>

definition unranked_results :: axe_results where
  "unranked_results =
     \<lparr>violations =
        [example_issue ''region'' (Severity ''minor''),
         example_issue ''custom-check'' NullImpact,
         example_issue ''image-alt'' (Severity ''critical'')],
      passes = [], incomplete = [], inapplicable = []\<rparr>"

definition unranked_env :: env where
  "unranked_env = example_env\<lparr>analyze := (\<lambda>u opts. Inr unranked_results)\<rparr>"

text \<open>
  The sample browser with an engine that rejects with \<open>null\<close>, and with a navigation that
  rejects with \<open>undefined\<close>.
\<close>

definition null_engine_env :: env where
  "null_engine_env = example_env\<lparr>analyze := (\<lambda>u opts. Inl ThrownNull)\<rparr>"

definition undefined_goto_env :: env where
  "undefined_goto_env = example_env\<lparr>goto := (\<lambda>u. Inl ThrownUndefined)\<rparr>"

text \<open>A call that resolves, or rejects with a value whose message can be read.\<close>

definition readable :: "thrown + 'a \<Rightarrow> bool" where
  "readable r = (case r of Inl error \<Rightarrow> \<not> isl (message error) | Inr _ \<Rightarrow> True)"

section \<open>Properties\<close>

lemmas run_defs = bind_def await_def return_def throw_def try_catch_def

lemma catch_trace:
  "snd (auditWebpage_catch err tr) = tr" "snd (getSummary_catch err tr) = tr"
  by (cases "message err"; simp add: auditWebpage_catch_def getSummary_catch_def return_def
      throw_def)+

subsection \<open>Requests without a URL\<close>

text \<open>
  C2. A request whose arguments carry no \<open>url\<close> makes either operation throw the
  \<open>McpError\<close> with the code \<open>InvalidParams\<close>, and the trace is empty: no call to the
  browser was made, a launch least of all.
\<close>

theorem missing_url_is_invalid_params:
  "url a = None \<Longrightarrow>
     auditWebpage e (Some a) = (Inl (McpError InvalidParams ''URL is required''), []) \<and>
     getSummary e (Some a) = (Inl (McpError InvalidParams ''URL is required''), [])"
  by (simp add: auditWebpage_def getSummary_def throw_def)

theorem missing_url_is_invalid_params_witness:
  "url (example_args\<lparr>url := None\<rparr>) = None \<and>
   auditWebpage example_env (Some (example_args\<lparr>url := None\<rparr>))
     = (Inl (McpError InvalidParams ''URL is required''), []) \<and>
   getSummary example_env (Some (example_args\<lparr>url := None\<rparr>))
     = (Inl (McpError InvalidParams ''URL is required''), [])"
  using missing_url_is_invalid_params [of "example_args\<lparr>url := None\<rparr>" example_env]
  by simp

text \<open>
  C10. A request whose \<open>url\<close> is the empty string gets the same fault from either
  operation as one without \<open>url\<close>, and again the trace is empty: the test \<open>!args.url\<close>
  is one of truthiness.
\<close>

theorem empty_url_is_invalid_params:
  "auditWebpage e (Some (a\<lparr>url := Some ''''\<rparr>))
     = (Inl (McpError InvalidParams ''URL is required''), []) \<and>
   getSummary e (Some (a\<lparr>url := Some ''''\<rparr>))
     = (Inl (McpError InvalidParams ''URL is required''), []) \<and>
   auditWebpage e (Some (a\<lparr>url := Some ''''\<rparr>)) = auditWebpage e (Some (a\<lparr>url := None\<rparr>)) \<and>
   getSummary e (Some (a\<lparr>url := Some ''''\<rparr>)) = getSummary e (Some (a\<lparr>url := None\<rparr>))"
  by (simp add: auditWebpage_def getSummary_def throw_def)

subsection \<open>The browser session\<close>

text \<open>
  C1. The claim is that a launched browser is closed on every way out of the operation.
  The source closes it on the line after the engine returns and nowhere else, so when the
  engine throws on a loaded page the handler returns with the browser launched and no call
  to \<open>close\<close> made, in the audit and in the summary alike.
\<close>

theorem engine_failure_leaves_browser_open:
  "snd (auditWebpage
          (example_env\<lparr>analyze := (\<lambda>u opts. Inl (Error ''Execution context was destroyed''))\<rparr>)
          (Some example_args))
     = [(Launch, True), (NewPage, True), (SetViewport 1280 800, True),
        (Goto ''https://example.com'' 30000, True),
        (Analyze (Some \<lparr>runOnly = Some (''tag'', [''wcag2aa''])\<rparr>), False)] \<and>
   snd (getSummary
          (example_env\<lparr>analyze := (\<lambda>u opts. Inl (Error ''Execution context was destroyed''))\<rparr>)
          (Some example_args))
     = [(Launch, True), (NewPage, True), (SetViewport 1280 800, True),
        (Goto ''https://example.com'' 30000, True), (Analyze None, False)]"
  by (simp add: auditWebpage_def getSummary_def auditWebpage_try_def getSummary_try_def
      catch_trace run_defs example_env_def example_args_def axeOptions_def)

subsection \<open>Operational failures\<close>

lemma auditWebpage_truthy:
  "url a = Some u \<Longrightarrow> u \<noteq> [] \<Longrightarrow>
     auditWebpage e (Some a) = try_catch (auditWebpage_try e a u) auditWebpage_catch []"
  by (simp add: auditWebpage_def)

lemma getSummary_truthy:
  "url a = Some u \<Longrightarrow> u \<noteq> [] \<Longrightarrow>
     getSummary e (Some a) = try_catch (getSummary_try e u) getSummary_catch []"
  by (simp add: getSummary_def)

lemma catch_with_message:
  "message err = Inr m \<Longrightarrow>
     auditWebpage_catch err tr
       = (Inr \<lparr>content = [Text (''Error auditing webpage: '' @ m)], isError = True\<rparr>, tr) \<and>
     getSummary_catch err tr
       = (Inr \<lparr>content = [Text (''Error getting summary: '' @ m)], isError = True\<rparr>, tr)"
  by (simp add: auditWebpage_catch_def getSummary_catch_def return_def)

lemma catch_readable:
  "readable (Inl err :: thrown + 'a) \<Longrightarrow>
     \<not> isl (fst (auditWebpage_catch err tr)) \<and> \<not> isl (fst (getSummary_catch err tr))"
  by (cases "message err")
    (simp_all add: readable_def auditWebpage_catch_def getSummary_catch_def return_def)

lemma auditWebpage_readable_never_faults:
  assumes "readable (launch e)" and "readable (newPage e)" and "readable (setViewport e)"
    and "readable (goto e u)" and "readable (analyze e u (Some (axeOptions a)))"
    and "readable (close e)"
  shows "\<not> isl (fst (try_catch (auditWebpage_try e a u) auditWebpage_catch tr))"
  using assms
  by (cases "launch e"; cases "newPage e"; cases "setViewport e"; cases "goto e u";
      cases "analyze e u (Some (axeOptions a))"; cases "close e")
    (simp_all add: auditWebpage_try_def run_defs catch_readable)

lemma getSummary_readable_never_faults:
  assumes "readable (launch e)" and "readable (newPage e)" and "readable (setViewport e)"
    and "readable (goto e u)" and "readable (analyze e u None)" and "readable (close e)"
  shows "\<not> isl (fst (try_catch (getSummary_try e u) getSummary_catch tr))"
  using assms
  by (cases "launch e"; cases "newPage e"; cases "setViewport e"; cases "goto e u";
      cases "analyze e u None"; cases "close e")
    (simp_all add: getSummary_try_def run_defs catch_readable)

text \<open>
  C3. The claim has every failure of the launch, the navigation or the engine come back as
  an error response and never as a fault. The \<open>catch\<close> block reads \<open>error.message\<close> of
  whatever was thrown: when the engine rejects with \<open>null\<close>, or the navigation with
  \<open>undefined\<close>, that reading throws a \<open>TypeError\<close> out of the handler.
\<close>

theorem failure_without_message_counterexample:
  "auditWebpage null_engine_env (Some example_args)
     = (Inl TypeError,
        [(Launch, True), (NewPage, True), (SetViewport 1280 800, True),
         (Goto ''https://example.com'' 30000, True),
         (Analyze (Some \<lparr>runOnly = Some (''tag'', [''wcag2aa''])\<rparr>), False)]) \<and>
   getSummary undefined_goto_env (Some example_args)
     = (Inl TypeError,
        [(Launch, True), (NewPage, True), (SetViewport 1280 800, True),
         (Goto ''https://example.com'' 30000, False)])"
  by (simp add: auditWebpage_def getSummary_def auditWebpage_try_def getSummary_try_def
      auditWebpage_catch_def getSummary_catch_def run_defs null_engine_env_def
      undefined_goto_env_def example_env_def example_args_def axeOptions_def message_def)

text \<open>
  C3, as amended. Take a request with a non-empty \<open>url\<close> (with an empty one no call is
  made at all, see C10). When the launch throws, or the navigation throws (the 30 second
  timeout is one of its errors), or the engine throws, each after the calls before it
  resolved, and the message of what was thrown can be read, as it can of every \<open>Error\<close>
  object, the operation returns the response flagged as an error whose text is
  \<open>Error auditing webpage: \<close>, respectively \<open>Error getting summary: \<close>, followed by
  that message. When every call of the operation either resolves or rejects with a value
  whose message can be read, the operation does not throw to the protocol layer.
\<close>

theorem failures_are_error_responses:
  "url a = Some u \<Longrightarrow> u \<noteq> [] \<Longrightarrow>
     ((launch e = Inl err \<or>
       (launch e = Inr () \<and> newPage e = Inr () \<and> setViewport e = Inr () \<and> goto e u = Inl err))
      \<and> message err = Inr m
      \<longrightarrow>
        fst (auditWebpage e (Some a))
          = Inr \<lparr>content = [Text (''Error auditing webpage: '' @ m)], isError = True\<rparr> \<and>
        fst (getSummary e (Some a))
          = Inr \<lparr>content = [Text (''Error getting summary: '' @ m)], isError = True\<rparr>) \<and>
     (launch e = Inr () \<and> newPage e = Inr () \<and> setViewport e = Inr () \<and> goto e u = Inr () \<and>
      analyze e u (Some (axeOptions a)) = Inl err \<and> message err = Inr m
      \<longrightarrow>
        fst (auditWebpage e (Some a))
          = Inr \<lparr>content = [Text (''Error auditing webpage: '' @ m)], isError = True\<rparr>) \<and>
     (launch e = Inr () \<and> newPage e = Inr () \<and> setViewport e = Inr () \<and> goto e u = Inr () \<and>
      analyze e u None = Inl err \<and> message err = Inr m
      \<longrightarrow>
        fst (getSummary e (Some a))
          = Inr \<lparr>content = [Text (''Error getting summary: '' @ m)], isError = True\<rparr>) \<and>
     (readable (launch e) \<and> readable (newPage e) \<and> readable (setViewport e) \<and>
      readable (goto e u) \<and> readable (analyze e u (Some (axeOptions a))) \<and> readable (close e)
      \<longrightarrow> \<not> isl (fst (auditWebpage e (Some a)))) \<and>
     (readable (launch e) \<and> readable (newPage e) \<and> readable (setViewport e) \<and>
      readable (goto e u) \<and> readable (analyze e u None) \<and> readable (close e)
      \<longrightarrow> \<not> isl (fst (getSummary e (Some a))))"
proof -
  assume u: "url a = Some u" "u \<noteq> []"
  have early: "(launch e = Inl err \<or>
       (launch e = Inr () \<and> newPage e = Inr () \<and> setViewport e = Inr () \<and> goto e u = Inl err))
      \<and> message err = Inr m
      \<Longrightarrow>
        fst (auditWebpage e (Some a))
          = Inr \<lparr>content = [Text (''Error auditing webpage: '' @ m)], isError = True\<rparr> \<and>
        fst (getSummary e (Some a))
          = Inr \<lparr>content = [Text (''Error getting summary: '' @ m)], isError = True\<rparr>"
    using u
    by (auto simp add: auditWebpage_truthy getSummary_truthy auditWebpage_try_def
        getSummary_try_def run_defs catch_with_message)
  have engine_audit: "launch e = Inr () \<and> newPage e = Inr () \<and> setViewport e = Inr () \<and>
      goto e u = Inr () \<and> analyze e u (Some (axeOptions a)) = Inl err \<and> message err = Inr m
      \<Longrightarrow>
        fst (auditWebpage e (Some a))
          = Inr \<lparr>content = [Text (''Error auditing webpage: '' @ m)], isError = True\<rparr>"
    using u
    by (simp add: auditWebpage_truthy auditWebpage_try_def run_defs catch_with_message)
  have engine_summary: "launch e = Inr () \<and> newPage e = Inr () \<and> setViewport e = Inr () \<and>
      goto e u = Inr () \<and> analyze e u None = Inl err \<and> message err = Inr m
      \<Longrightarrow>
        fst (getSummary e (Some a))
          = Inr \<lparr>content = [Text (''Error getting summary: '' @ m)], isError = True\<rparr>"
    using u
    by (simp add: getSummary_truthy getSummary_try_def run_defs catch_with_message)
  have no_fault_audit: "readable (launch e) \<and> readable (newPage e) \<and>
      readable (setViewport e) \<and> readable (goto e u) \<and>
      readable (analyze e u (Some (axeOptions a))) \<and> readable (close e)
      \<Longrightarrow> \<not> isl (fst (auditWebpage e (Some a)))"
    using u by (simp add: auditWebpage_truthy auditWebpage_readable_never_faults)
  have no_fault_summary: "readable (launch e) \<and> readable (newPage e) \<and>
      readable (setViewport e) \<and> readable (goto e u) \<and>
      readable (analyze e u None) \<and> readable (close e)
      \<Longrightarrow> \<not> isl (fst (getSummary e (Some a)))"
    using u by (simp add: getSummary_truthy getSummary_readable_never_faults)
  show ?thesis
    using early engine_audit engine_summary no_fault_audit no_fault_summary by blast
qed

theorem failures_are_error_responses_witness:
  "url example_args = Some ''https://example.com'' \<and>
   fst (auditWebpage (example_env\<lparr>launch := Inl (Error ''Failed to launch the browser process'')\<rparr>)
          (Some example_args))
     = Inr \<lparr>content = [Text ''Error auditing webpage: Failed to launch the browser process''],
            isError = True\<rparr> \<and>
   fst (getSummary
          (example_env\<lparr>goto := (\<lambda>u. Inl (Error ''Navigation timeout of 30000 ms exceeded''))\<rparr>)
          (Some example_args))
     = Inr \<lparr>content = [Text ''Error getting summary: Navigation timeout of 30000 ms exceeded''],
            isError = True\<rparr> \<and>
   fst (auditWebpage
          (example_env\<lparr>analyze := (\<lambda>u opts. Inl (Error ''Execution context was destroyed''))\<rparr>)
          (Some example_args))
     = Inr \<lparr>content = [Text ''Error auditing webpage: Execution context was destroyed''],
            isError = True\<rparr> \<and>
   fst (getSummary
          (example_env\<lparr>analyze := (\<lambda>u opts. Inl (Error ''Execution context was destroyed''))\<rparr>)
          (Some example_args))
     = Inr \<lparr>content = [Text ''Error getting summary: Execution context was destroyed''],
            isError = True\<rparr> \<and>
   \<not> isl (fst (auditWebpage (example_env\<lparr>close := Inl ThrownPrimitive\<rparr>) (Some example_args))) \<and>
   \<not> isl (fst (getSummary (example_env\<lparr>close := Inl ThrownPrimitive\<rparr>) (Some example_args)))"
proof -
  have u: "url example_args = Some ''https://example.com''" "''https://example.com'' \<noteq> []"
    by (simp_all add: example_args_def)
  show ?thesis
    using u(1)
      failures_are_error_responses [OF u,
        of "example_env\<lparr>launch := Inl (Error ''Failed to launch the browser process'')\<rparr>"
           "Error ''Failed to launch the browser process''"
           "''Failed to launch the browser process''"]
      failures_are_error_responses [OF u,
        of "example_env\<lparr>goto := (\<lambda>u. Inl (Error ''Navigation timeout of 30000 ms exceeded''))\<rparr>"
           "Error ''Navigation timeout of 30000 ms exceeded''"
           "''Navigation timeout of 30000 ms exceeded''"]
      failures_are_error_responses [OF u,
        of "example_env\<lparr>analyze := (\<lambda>u opts. Inl (Error ''Execution context was destroyed''))\<rparr>"
           "Error ''Execution context was destroyed''" "''Execution context was destroyed''"]
      failures_are_error_responses [OF u, of "example_env\<lparr>close := Inl ThrownPrimitive\<rparr>"]
    by (simp add: example_env_def message_def readable_def)
qed

subsection \<open>The formatted report\<close>

text \<open>
  A successful audit: the handler returned a response that is not flagged as an error. Then
  the request had a \<open>url\<close>, the engine returned a result, and the text of the response is
  the report built from that result.
\<close>

lemma audit_success:
  assumes "auditWebpage e (Some a) = (Inr r, tr)" and "\<not> isError r"
  shows "\<exists>u results. url a = Some u \<and> u \<noteq> [] \<and>
           analyze e u (Some (axeOptions a)) = Inr results \<and>
           r = \<lparr>content = [Text (stringify e (formattedResults e a u results))],
                isError = False\<rparr>"
proof (cases "url a")
  case None
  with assms show ?thesis by (simp add: auditWebpage_def throw_def)
next
  case (Some u)
  show ?thesis
  proof (cases "u = []")
    case True
    with Some assms show ?thesis by (simp add: auditWebpage_def throw_def)
  next
    case False
    from assms have "try_catch (auditWebpage_try e a u) auditWebpage_catch [] = (Inr r, tr)"
      using Some False by (simp add: auditWebpage_truthy)
    with assms(2) have "\<exists>results. analyze e u (Some (axeOptions a)) = Inr results \<and>
           r = \<lparr>content = [Text (stringify e (formattedResults e a u results))],
                isError = False\<rparr>"
      by (auto simp add: auditWebpage_try_def auditWebpage_catch_def run_defs
          split: sum.splits)
    with Some False show ?thesis by blast
  qed
qed

lemma example_audit:
  "auditWebpage example_env (Some example_args)
     = (Inr \<lparr>content = [Text ''{}''], isError = False\<rparr>,
        [(Launch, True), (NewPage, True), (SetViewport 1280 800, True),
         (Goto ''https://example.com'' 30000, True),
         (Analyze (Some \<lparr>runOnly = Some (''tag'', [''wcag2aa''])\<rparr>), True), (Close, True)])"
  by (simp add: auditWebpage_def auditWebpage_try_def auditWebpage_catch_def run_defs
      example_env_def example_args_def axeOptions_def)

lemma get_violations:
  "get (formattedResults e a u results) ''violations''
     = Some (JArr (map (formattedViolation a) (violations results)))"
  by (simp add: formattedResults_def get_def)

lemma get_nodes:
  "get (formattedViolation a v) ''nodes'' = Some (JArr (map (formattedNode a) (nodes v)))"
  by (simp add: formattedViolation_def get_def)

lemma get_html:
  "get (formattedNode a n) ''html'' = (if includeHtml a = Some True then Some (html n) else None)"
  by (simp add: formattedNode_def get_def)

text \<open>
  C6. In the report of a successful audit the array \<open>violations\<close> is as long as the
  engine's list of violations, and the array \<open>nodes\<close> of the i-th formatted violation is
  as long as the node list of the i-th raw violation.
\<close>

theorem report_keeps_counts:
  assumes "auditWebpage e (Some a) = (Inr r, tr)" and "\<not> isError r"
  shows "\<exists>u results fvs. url a = Some u \<and>
           analyze e u (Some (axeOptions a)) = Inr results \<and>
           content r = [Text (stringify e (formattedResults e a u results))] \<and>
           get (formattedResults e a u results) ''violations'' = Some (JArr fvs) \<and>
           length fvs = length (violations results) \<and>
           (\<forall>i < length fvs. \<exists>ns. get (fvs ! i) ''nodes'' = Some (JArr ns) \<and>
              length ns = length (nodes (violations results ! i)))"
proof -
  from audit_success [OF assms] obtain u results where
    ok: "url a = Some u" "analyze e u (Some (axeOptions a)) = Inr results"
      "r = \<lparr>content = [Text (stringify e (formattedResults e a u results))], isError = False\<rparr>"
    by blast
  let ?fvs = "map (formattedViolation a) (violations results)"
  have "\<forall>i < length ?fvs. \<exists>ns. get (?fvs ! i) ''nodes'' = Some (JArr ns) \<and>
              length ns = length (nodes (violations results ! i))"
    by (simp add: get_nodes)
  with ok show ?thesis
    using get_violations [of e a u results]
    by (intro exI [of _ u] exI [of _ results] exI [of _ ?fvs]) simp
qed

theorem report_keeps_counts_witness:
  "auditWebpage example_env (Some example_args)
     = (Inr \<lparr>content = [Text ''{}''], isError = False\<rparr>,
        [(Launch, True), (NewPage, True), (SetViewport 1280 800, True),
         (Goto ''https://example.com'' 30000, True),
         (Analyze (Some \<lparr>runOnly = Some (''tag'', [''wcag2aa''])\<rparr>), True), (Close, True)]) \<and>
   \<not> isError \<lparr>content = [Text ''{}''], isError = False\<rparr> \<and>
   (\<exists>fvs. get (formattedResults example_env example_args ''https://example.com'' example_results)
            ''violations'' = Some (JArr fvs) \<and>
          length fvs = 1 \<and>
          (\<exists>ns. get (fvs ! 0) ''nodes'' = Some (JArr ns) \<and> length ns = 2))"
proof -
  have ok: "\<not> isError \<lparr>content = [Text ''{}''], isError = False\<rparr>"
    by simp
  from report_keeps_counts [OF example_audit ok] obtain u results fvs where
    r: "url example_args = Some u"
      "analyze example_env u (Some (axeOptions example_args)) = Inr results"
      "get (formattedResults example_env example_args u results) ''violations'' = Some (JArr fvs)"
      "length fvs = length (violations results)"
      "\<forall>i < length fvs. \<exists>ns. get (fvs ! i) ''nodes'' = Some (JArr ns) \<and>
              length ns = length (nodes (violations results ! i))"
    by blast
  from r(1) have u: "u = ''https://example.com''"
    by (simp add: example_args_def)
  from r(2) have res: "results = example_results"
    by (simp add: example_env_def)
  from r(4) have len: "length fvs = 1"
    by (simp add: res example_results_def)
  with r(5) have "\<exists>ns. get (fvs ! 0) ''nodes'' = Some (JArr ns) \<and>
      length ns = length (nodes (violations results ! 0))"
    by simp
  then have "\<exists>ns. get (fvs ! 0) ''nodes'' = Some (JArr ns) \<and> length ns = 2"
    by (simp add: res example_results_def example_violation_def numeral_2_eq_2)
  with r(3) len show ?thesis
    using example_audit ok u res by blast
qed

text \<open>
  C7. In the report of a successful audit, a formatted node has the property \<open>html\<close>
  exactly when the request's \<open>includeHtml\<close> is \<open>true\<close>, and then its value is the
  \<open>html\<close> of the raw node at the same place; with \<open>includeHtml\<close> false or absent no
  formatted node has the property.
\<close>

theorem html_only_when_requested:
  assumes "auditWebpage e (Some a) = (Inr r, tr)" and "\<not> isError r"
  shows "\<exists>u results fvs. url a = Some u \<and>
           analyze e u (Some (axeOptions a)) = Inr results \<and>
           content r = [Text (stringify e (formattedResults e a u results))] \<and>
           get (formattedResults e a u results) ''violations'' = Some (JArr fvs) \<and>
           (\<forall>i < length fvs. \<exists>ns. get (fvs ! i) ''nodes'' = Some (JArr ns) \<and>
              (\<forall>j < length ns.
                 get (ns ! j) ''html''
                   = (if includeHtml a = Some True
                      then Some (html (nodes (violations results ! i) ! j)) else None)))"
proof -
  from audit_success [OF assms] obtain u results where
    ok: "url a = Some u" "analyze e u (Some (axeOptions a)) = Inr results"
      "r = \<lparr>content = [Text (stringify e (formattedResults e a u results))], isError = False\<rparr>"
    by blast
  let ?fvs = "map (formattedViolation a) (violations results)"
  have "\<forall>i < length ?fvs. \<exists>ns. get (?fvs ! i) ''nodes'' = Some (JArr ns) \<and>
              (\<forall>j < length ns.
                 get (ns ! j) ''html''
                   = (if includeHtml a = Some True
                      then Some (html (nodes (violations results ! i) ! j)) else None))"
    by (simp add: get_nodes get_html)
  with ok show ?thesis
    using get_violations [of e a u results]
    by (intro exI [of _ u] exI [of _ results] exI [of _ ?fvs]) simp
qed

theorem html_only_when_requested_witness:
  "auditWebpage example_env (Some example_args)
     = (Inr \<lparr>content = [Text ''{}''], isError = False\<rparr>,
        [(Launch, True), (NewPage, True), (SetViewport 1280 800, True),
         (Goto ''https://example.com'' 30000, True),
         (Analyze (Some \<lparr>runOnly = Some (''tag'', [''wcag2aa''])\<rparr>), True), (Close, True)]) \<and>
   \<not> isError \<lparr>content = [Text ''{}''], isError = False\<rparr> \<and>
   (\<exists>fvs ns. get (formattedResults example_env example_args ''https://example.com'' example_results)
            ''violations'' = Some (JArr fvs) \<and>
          get (fvs ! 0) ''nodes'' = Some (JArr ns) \<and>
          get (ns ! 1) ''html'' = Some (JStr ''<img src=logo.png>''))"
proof -
  have ok: "\<not> isError \<lparr>content = [Text ''{}''], isError = False\<rparr>"
    by simp
  from html_only_when_requested [OF example_audit ok] obtain u results fvs where
    r: "url example_args = Some u"
      "analyze example_env u (Some (axeOptions example_args)) = Inr results"
      "get (formattedResults example_env example_args u results) ''violations'' = Some (JArr fvs)"
      "\<forall>i < length fvs. \<exists>ns. get (fvs ! i) ''nodes'' = Some (JArr ns) \<and>
         (\<forall>j < length ns.
            get (ns ! j) ''html''
              = (if includeHtml example_args = Some True
                 then Some (html (nodes (violations results ! i) ! j)) else None))"
    by blast
  from r(1) have u: "u = ''https://example.com''"
    by (simp add: example_args_def)
  from r(2) have res: "results = example_results"
    by (simp add: example_env_def)
  from r(3) have fvs: "fvs = map (formattedViolation example_args) (violations example_results)"
    by (simp add: get_violations res)
  then have "0 < length fvs"
    by (simp add: example_results_def)
  with r(4) obtain ns where
    ns: "get (fvs ! 0) ''nodes'' = Some (JArr ns)"
      "\<forall>j < length ns.
         get (ns ! j) ''html''
           = (if includeHtml example_args = Some True
              then Some (html (nodes (violations results ! 0) ! j)) else None)"
    by blast
  from ns(1) have "length ns = 2"
    by (auto simp add: fvs get_nodes example_results_def example_violation_def)
  with ns(2) have "get (ns ! 1) ''html''
      = (if includeHtml example_args = Some True
         then Some (html (nodes (violations results ! 0) ! 1)) else None)"
    by simp
  then have "get (ns ! 1) ''html'' = Some (JStr ''<img src=logo.png>'')"
    by (simp add: res example_args_def example_results_def example_violation_def
        example_node_def)
  with r(3) ns(1) show ?thesis
    using example_audit ok u res by blast
qed

text \<open>
  C8. The claim has the report echo the request back, its fields generally. The report of
  the sample request, which sets \<open>includeHtml\<close> and \<open>tags\<close>, carries neither.
\<close>

theorem report_echoes_request_counterexample:
  "fst (auditWebpage example_env (Some example_args))
     = Inr \<lparr>content = [Text (stringify example_env
              (formattedResults example_env example_args ''https://example.com'' example_results))],
            isError = False\<rparr> \<and>
   \<not> echoes_request
       (formattedResults example_env example_args ''https://example.com'' example_results)
       example_args"
  by (simp add: auditWebpage_def auditWebpage_try_def auditWebpage_catch_def run_defs
      example_env_def example_args_def echoes_request_def request_object_def get_def
      formattedResults_def)

text \<open>
  C8, as amended. The report of a successful audit has six properties, in this order:
  the request's \<open>url\<close>, the timestamp read from the clock, the reshaped violations, and the
  numbers of passed, incomplete and inapplicable checks. Of the request only \<open>url\<close> is
  echoed.
\<close>

theorem report_echoes_url_only:
  assumes "auditWebpage e (Some a) = (Inr r, tr)" and "\<not> isError r"
  shows "\<exists>u results props. url a = Some u \<and>
           analyze e u (Some (axeOptions a)) = Inr results \<and>
           content r = [Text (stringify e (formattedResults e a u results))] \<and>
           formattedResults e a u results = JObj props \<and>
           map fst props
             = [''url'', ''timestamp'', ''violations'', ''passes'', ''incomplete'', ''inapplicable''] \<and>
           map_of props ''url'' = Some (JStr u) \<and>
           map_of props ''timestamp'' = Some (JStr (now e)) \<and>
           map_of props ''violations''
             = Some (JArr (map (formattedViolation a) (violations results))) \<and>
           map_of props ''passes'' = Some (JNum (int (length (passes results)))) \<and>
           map_of props ''incomplete'' = Some (JNum (int (length (incomplete results)))) \<and>
           map_of props ''inapplicable'' = Some (JNum (int (length (inapplicable results))))"
proof -
  from audit_success [OF assms] obtain u results where
    ok: "url a = Some u" "analyze e u (Some (axeOptions a)) = Inr results"
      "r = \<lparr>content = [Text (stringify e (formattedResults e a u results))], isError = False\<rparr>"
    by blast
  then show ?thesis
    by (intro exI [of _ u] exI [of _ results]) (simp add: formattedResults_def)
qed

theorem report_echoes_url_only_witness:
  "auditWebpage example_env (Some example_args)
     = (Inr \<lparr>content = [Text ''{}''], isError = False\<rparr>,
        [(Launch, True), (NewPage, True), (SetViewport 1280 800, True),
         (Goto ''https://example.com'' 30000, True),
         (Analyze (Some \<lparr>runOnly = Some (''tag'', [''wcag2aa''])\<rparr>), True), (Close, True)]) \<and>
   \<not> isError \<lparr>content = [Text ''{}''], isError = False\<rparr> \<and>
   (\<exists>props. formattedResults example_env example_args ''https://example.com'' example_results
              = JObj props \<and>
            map fst props
              = [''url'', ''timestamp'', ''violations'', ''passes'', ''incomplete'', ''inapplicable''] \<and>
            map_of props ''url'' = Some (JStr ''https://example.com'') \<and>
            map_of props ''passes'' = Some (JNum 2))"
proof -
  have ok: "\<not> isError \<lparr>content = [Text ''{}''], isError = False\<rparr>"
    by simp
  from report_echoes_url_only [OF example_audit ok] obtain u results props where
    r: "url example_args = Some u"
      "analyze example_env u (Some (axeOptions example_args)) = Inr results"
      "formattedResults example_env example_args u results = JObj props"
      "map fst props
         = [''url'', ''timestamp'', ''violations'', ''passes'', ''incomplete'', ''inapplicable'']"
      "map_of props ''url'' = Some (JStr u)"
      "map_of props ''passes'' = Some (JNum (int (length (passes results))))"
    by (elim exE conjE) (rule that)
  from r(1) have u: "u = ''https://example.com''"
    by (simp add: example_args_def)
  from r(2) have res: "results = example_results"
    by (simp add: example_env_def)
  from r(6) have "map_of props ''passes'' = Some (JNum 2)"
    by (simp add: res example_results_def)
  with r(3,4,5) have "\<exists>props.
      formattedResults example_env example_args ''https://example.com'' example_results
        = JObj props \<and>
      map fst props
        = [''url'', ''timestamp'', ''violations'', ''passes'', ''incomplete'', ''inapplicable''] \<and>
      map_of props ''url'' = Some (JStr ''https://example.com'') \<and>
      map_of props ''passes'' = Some (JNum 2)"
    unfolding u res by (intro exI [of _ props]) simp
  then show ?thesis
    using example_audit by simp
qed

subsection \<open>The formatted summary\<close>

lemma getSummary_try_unfiltered:
  "(Analyze (Some opts), ok) \<notin> set (snd (try_catch (getSummary_try e u) getSummary_catch []))"
  by (cases "launch e"; cases "newPage e"; cases "setViewport e"; cases "goto e u";
      cases "analyze e u None"; cases "close e")
    (simp_all add: getSummary_try_def catch_trace run_defs)

lemma getSummary_unfiltered:
  "(Analyze (Some opts), ok) \<notin> set (snd (getSummary e (Some a)))"
  by (cases "url a") (simp_all add: getSummary_def throw_def getSummary_try_unfiltered)

text \<open>
  C9. Two summary requests with the same \<open>url\<close> get the same response and make the same
  calls, whatever \<open>tags\<close> and \<open>includeHtml\<close> they carry; the engine is never given
  options, hence no tag filter; and a different reading of the clock changes no property
  of the summary but \<open>timestamp\<close>.
\<close>

theorem summary_honours_url_only:
  "url a = url b \<Longrightarrow>
     getSummary e (Some a) = getSummary e (Some b) \<and>
     (\<forall>opts ok. (Analyze (Some opts), ok) \<notin> set (snd (getSummary e (Some a)))) \<and>
     (\<forall>k t u results. k \<noteq> ''timestamp'' \<longrightarrow>
        get (summary (e\<lparr>now := t\<rparr>) u results) k = get (summary e u results) k)"
proof -
  assume same: "url a = url b"
  then have eq: "getSummary e (Some a) = getSummary e (Some b)"
    by (simp add: getSummary_def)
  have unfiltered: "(Analyze (Some opts), ok) \<notin> set (snd (getSummary e (Some a)))" for opts ok
    by (rule getSummary_unfiltered)
  have clock: "k \<noteq> ''timestamp'' \<longrightarrow>
      get (summary (e\<lparr>now := t\<rparr>) u results) k = get (summary e u results) k" for k t u results
    by (simp add: summary_def get_def)
  from eq unfiltered clock show ?thesis
    by blast
qed

theorem summary_honours_url_only_witness:
  "url example_args = url (example_args\<lparr>includeHtml := None, tags := Some [''best-practice'']\<rparr>) \<and>
   getSummary example_env (Some example_args)
     = getSummary example_env
         (Some (example_args\<lparr>includeHtml := None, tags := Some [''best-practice'']\<rparr>)) \<and>
   snd (getSummary example_env (Some example_args))
     = [(Launch, True), (NewPage, True), (SetViewport 1280 800, True),
        (Goto ''https://example.com'' 30000, True), (Analyze None, True), (Close, True)] \<and>
   get (summary (example_env\<lparr>now := ''2025-06-30T12:00:00.000Z''\<rparr>) ''https://example.com''
          example_results) ''totalIssues''
     = get (summary example_env ''https://example.com'' example_results) ''totalIssues''"
proof -
  have same: "url example_args
      = url (example_args\<lparr>includeHtml := None, tags := Some [''best-practice'']\<rparr>)"
    by simp
  have tr: "snd (getSummary example_env (Some example_args))
     = [(Launch, True), (NewPage, True), (SetViewport 1280 800, True),
        (Goto ''https://example.com'' 30000, True), (Analyze None, True), (Close, True)]"
    by (simp add: getSummary_def getSummary_try_def getSummary_catch_def run_defs
        example_env_def example_args_def)
  have neq: "''totalIssues'' \<noteq> ''timestamp''"
    by simp
  note url_only = summary_honours_url_only [OF same, of example_env]
  from url_only have eq: "getSummary example_env (Some example_args)
     = getSummary example_env
         (Some (example_args\<lparr>includeHtml := None, tags := Some [''best-practice'']\<rparr>))"
    by (rule conjunct1)
  note clock = url_only [THEN conjunct2, THEN conjunct2, rule_format, OF neq]
  show ?thesis
    by (intro conjI) (rule same, rule eq, rule tr, rule clock)
qed

subsection \<open>The summary's counts and top issues\<close>

lemma summary_success:
  assumes "getSummary e (Some a) = (Inr r, tr)" and "\<not> isError r"
  shows "\<exists>u results. url a = Some u \<and> u \<noteq> [] \<and> analyze e u None = Inr results \<and>
           r = \<lparr>content = [Text (stringify e (summary e u results))], isError = False\<rparr>"
proof (cases "url a")
  case None
  with assms show ?thesis by (simp add: getSummary_def throw_def)
next
  case (Some u)
  show ?thesis
  proof (cases "u = []")
    case True
    with Some assms show ?thesis by (simp add: getSummary_def throw_def)
  next
    case False
    from assms have "try_catch (getSummary_try e u) getSummary_catch [] = (Inr r, tr)"
      using Some False by (simp add: getSummary_truthy)
    with assms(2) have "\<exists>results. analyze e u None = Inr results \<and>
           r = \<lparr>content = [Text (stringify e (summary e u results))], isError = False\<rparr>"
      by (auto simp add: getSummary_try_def getSummary_catch_def run_defs split: sum.splits)
    with Some False show ?thesis by blast
  qed
qed

lemma busy_summary:
  "getSummary busy_env (Some example_args)
     = (Inr \<lparr>content = [Text ''{}''], isError = False\<rparr>,
        [(Launch, True), (NewPage, True), (SetViewport 1280 800, True),
         (Goto ''https://example.com'' 30000, True), (Analyze None, True), (Close, True)])"
  by (simp add: getSummary_def getSummary_try_def getSummary_catch_def run_defs
      busy_env_def example_env_def example_args_def)

lemma bucket_partition:
  "count_impact ''critical'' vs + count_impact ''serious'' vs
     + count_impact ''moderate'' vs + count_impact ''minor'' vs
     + length (filter (\<lambda>v. \<not> recognized v) vs) = length vs"
  by (induction vs) (auto simp add: count_impact_def recognized_def)

text \<open>
  C5. In the summary of a successful run, \<open>totalIssues\<close> is the number of violations and
  the four buckets count the violations whose impact is exactly their severity. The sum
  of the buckets and the number of violations with another (or no) impact is the total; so
  the sum is at most the total, and equal to it exactly when every violation has one of
  the four severities.
\<close>

theorem bucket_sum_bounded_by_total:
  assumes "getSummary e (Some a) = (Inr r, tr)" and "\<not> isError r"
  shows "\<exists>u results c s m n. url a = Some u \<and> analyze e u None = Inr results \<and>
           content r = [Text (stringify e (summary e u results))] \<and>
           get (summary e u results) ''totalIssues''
             = Some (JNum (int (length (violations results)))) \<and>
           get (summary e u results) ''issuesBySeverity''
             = Some (JObj [(''critical'', JNum (int c)), (''serious'', JNum (int s)),
                           (''moderate'', JNum (int m)), (''minor'', JNum (int n))]) \<and>
           c + s + m + n + length (filter (\<lambda>v. \<not> recognized v) (violations results))
             = length (violations results) \<and>
           c + s + m + n \<le> length (violations results) \<and>
           (c + s + m + n = length (violations results)
              \<longleftrightarrow> (\<forall>v \<in> set (violations results). recognized v))"
proof -
  from summary_success [OF assms] obtain u results where
    ok: "url a = Some u" "analyze e u None = Inr results"
      "r = \<lparr>content = [Text (stringify e (summary e u results))], isError = False\<rparr>"
    by blast
  let ?vs = "violations results"
  let ?c = "count_impact ''critical'' ?vs" and ?s = "count_impact ''serious'' ?vs"
  let ?m = "count_impact ''moderate'' ?vs" and ?n = "count_impact ''minor'' ?vs"
  have part: "?c + ?s + ?m + ?n + length (filter (\<lambda>v. \<not> recognized v) ?vs) = length ?vs"
    by (rule bucket_partition)
  then have le: "?c + ?s + ?m + ?n \<le> length ?vs"
    by linarith
  from part have "?c + ?s + ?m + ?n = length ?vs
      \<longleftrightarrow> length (filter (\<lambda>v. \<not> recognized v) ?vs) = 0"
    by linarith
  then have iff: "?c + ?s + ?m + ?n = length ?vs \<longleftrightarrow> (\<forall>v \<in> set ?vs. recognized v)"
    by (simp add: filter_empty_conv)
  have total: "get (summary e u results) ''totalIssues'' = Some (JNum (int (length ?vs)))"
    by (simp add: summary_def get_def)
  have buckets: "get (summary e u results) ''issuesBySeverity''
      = Some (JObj [(''critical'', JNum (int ?c)), (''serious'', JNum (int ?s)),
                    (''moderate'', JNum (int ?m)), (''minor'', JNum (int ?n))])"
    by (simp add: summary_def get_def issuesBySeverity_def)
  from ok total buckets part le iff show ?thesis
    by (intro exI [of _ u] exI [of _ results] exI [of _ ?c] exI [of _ ?s] exI [of _ ?m]
        exI [of _ ?n]) simp
qed

theorem bucket_sum_bounded_by_total_witness:
  "getSummary busy_env (Some example_args)
     = (Inr \<lparr>content = [Text ''{}''], isError = False\<rparr>,
        [(Launch, True), (NewPage, True), (SetViewport 1280 800, True),
         (Goto ''https://example.com'' 30000, True), (Analyze None, True), (Close, True)]) \<and>
   \<not> isError \<lparr>content = [Text ''{}''], isError = False\<rparr> \<and>
   list_all recognized (violations busy_results) \<and>
   (\<exists>c s m n. get (summary busy_env ''https://example.com'' busy_results) ''issuesBySeverity''
             = Some (JObj [(''critical'', JNum (int c)), (''serious'', JNum (int s)),
                           (''moderate'', JNum (int m)), (''minor'', JNum (int n))]) \<and>
           c + s + m + n = 7)"
proof -
  have ok: "\<not> isError \<lparr>content = [Text ''{}''], isError = False\<rparr>"
    by simp
  have all: "\<forall>v \<in> set (violations busy_results). recognized v"
    by (simp add: busy_results_def recognized_def example_issue_def)
  from bucket_sum_bounded_by_total [OF busy_summary ok] obtain u results c s m n where
    r: "url example_args = Some u" "analyze busy_env u None = Inr results"
      "get (summary busy_env u results) ''issuesBySeverity''
         = Some (JObj [(''critical'', JNum (int c)), (''serious'', JNum (int s)),
                       (''moderate'', JNum (int m)), (''minor'', JNum (int n))])"
      "c + s + m + n = length (violations results)
         \<longleftrightarrow> (\<forall>v \<in> set (violations results). recognized v)"
    by (elim exE conjE) (rule that)
  from r(1) have u: "u = ''https://example.com''"
    by (simp add: example_args_def)
  from r(2) have res: "results = busy_results"
    by (simp add: busy_env_def)
  from r(4) all have "c + s + m + n = length (violations busy_results)"
    by (simp add: res)
  then have "c + s + m + n = 7"
    by (simp add: busy_results_def)
  with r(3) have "\<exists>c s m n.
      get (summary busy_env ''https://example.com'' busy_results) ''issuesBySeverity''
        = Some (JObj [(''critical'', JNum (int c)), (''serious'', JNum (int s)),
                      (''moderate'', JNum (int m)), (''minor'', JNum (int n))]) \<and>
      c + s + m + n = 7"
    unfolding u res by (intro exI [of _ c] exI [of _ s] exI [of _ m] exI [of _ n]) simp
  with all show ?thesis
    using busy_summary by (simp add: list_all_iff)
qed

subsection \<open>Sorting with a consistent comparator\<close>

lemma insertion_point_correct:
  assumes "sorted (map f work)"
    and "\<forall>y \<in> set work. order pivot y = f pivot - f y"
    and "left \<le> right" and "right \<le> length work"
    and "\<forall>i < left. f (work ! i) \<le> f pivot"
    and "\<forall>i. right \<le> i \<longrightarrow> i < length work \<longrightarrow> f pivot < f (work ! i)"
  shows "left \<le> insertion_point order pivot work left right \<and>
         insertion_point order pivot work left right \<le> right \<and>
         (\<forall>i < insertion_point order pivot work left right. f (work ! i) \<le> f pivot) \<and>
         (\<forall>i. insertion_point order pivot work left right \<le> i \<longrightarrow> i < length work
            \<longrightarrow> f pivot < f (work ! i))"
  using assms
proof (induction order pivot work left right rule: insertion_point.induct)
  case (1 order pivot work left right)
  show ?case
  proof (cases "left < right")
    case False
    then have stop: "insertion_point order pivot work left right = left"
      by (simp add: insertion_point.simps [of order pivot work left right])
    from False "1.prems"(3) have "left = right"
      by simp
    with "1.prems"(5,6) show ?thesis
      unfolding stop by simp
  next
    case True
    define mid where "mid = left + (right - left) div 2"
    from True have mid: "left \<le> mid" "mid < right"
      by (simp_all add: mid_def)
    with "1.prems" have in_work: "mid < length work" "work ! mid \<in> set work"
      by simp_all
    with "1.prems" have ord: "order pivot (work ! mid) = f pivot - f (work ! mid)"
      by blast
    have mono: "f (work ! i) \<le> f (work ! j)" if "i \<le> j" "j < length work" for i j
      using "1.prems"(1) that by (simp add: sorted_iff_nth_mono)
    show ?thesis
    proof (cases "order pivot (work ! mid) < 0")
      case less: True
      then have lt: "f pivot < f (work ! mid)"
        using ord by simp
      have above: "\<forall>i. mid \<le> i \<longrightarrow> i < length work \<longrightarrow> f pivot < f (work ! i)"
      proof (intro allI impI)
        fix i assume "mid \<le> i" "i < length work"
        then have "f (work ! mid) \<le> f (work ! i)" by (rule mono)
        with lt show "f pivot < f (work ! i)" by simp
      qed
      have step: "insertion_point order pivot work left right
          = insertion_point order pivot work left mid"
        using True less
        by (simp add: insertion_point.simps [of order pivot work left right] mid_def Let_def)
      from "1.IH"(1) [OF True mid_def less "1.prems"(1,2) mid(1) _ "1.prems"(5) above]
        in_work(1) mid(2)
      show ?thesis
        unfolding step by auto
    next
      case geq: False
      then have le: "f (work ! mid) \<le> f pivot"
        using ord by simp
      have below: "\<forall>i < mid + 1. f (work ! i) \<le> f pivot"
      proof (intro allI impI)
        fix i assume "i < mid + 1"
        then have "i \<le> mid" by simp
        then have "f (work ! i) \<le> f (work ! mid)" using in_work(1) by (rule mono)
        with le show "f (work ! i) \<le> f pivot" by simp
      qed
      have step: "insertion_point order pivot work left right
          = insertion_point order pivot work (mid + 1) right"
        using True geq
        by (simp add: insertion_point.simps [of order pivot work left right] mid_def Let_def)
      from mid have "mid + 1 \<le> right" by simp
      from "1.IH"(2) [OF True mid_def geq "1.prems"(1,2) this "1.prems"(4) below "1.prems"(6)]
        mid(1)
      show ?thesis
        unfolding step by auto
    qed
  qed
qed

lemma insert_at_point_sorted:
  fixes f :: "'a \<Rightarrow> int"
  assumes "sorted (map f ys)" and "p \<le> length ys"
    and "\<forall>i < p. f (ys ! i) \<le> f x"
    and "\<forall>i. p \<le> i \<longrightarrow> i < length ys \<longrightarrow> f x < f (ys ! i)"
  shows "sorted (map f (take p ys @ x # drop p ys))"
proof -
  have low: "\<forall>y \<in> set (take p ys). f y \<le> f x"
    using assms(2,3) by (auto simp add: in_set_conv_nth)
  have high: "\<forall>y \<in> set (drop p ys). f x < f y"
    using assms(2,4) by (auto simp add: in_set_conv_nth)
  have parts: "sorted (map f (take p ys))" "sorted (map f (drop p ys))"
    using assms(1) by (simp_all add: sorted_wrt_take sorted_wrt_drop flip: take_map drop_map)
  have cross: "\<forall>a \<in> set (take p ys). \<forall>b \<in> set (drop p ys). f a \<le> f b"
    using low high by fastforce
  from low high parts cross show ?thesis
    by (auto simp add: sorted_append less_imp_le)
qed

lemma insert_at_point_stable:
  fixes f :: "'a \<Rightarrow> int"
  assumes "\<forall>i. p \<le> i \<longrightarrow> i < length ys \<longrightarrow> f x < f (ys ! i)"
  shows "filter (\<lambda>y. f k = f y) (take p ys @ x # drop p ys)
           = filter (\<lambda>y. f k = f y) (ys @ [x])"
proof (cases "f k = f x")
  case True
  have "\<forall>y \<in> set (drop p ys). f x < f y"
    using assms by (auto simp add: in_set_conv_nth)
  then have "filter (\<lambda>y. f k = f y) (drop p ys) = []"
    using True by (auto simp add: filter_empty_conv)
  moreover have "filter (\<lambda>y. f k = f y) ys
      = filter (\<lambda>y. f k = f y) (take p ys) @ filter (\<lambda>y. f k = f y) (drop p ys)"
    by (simp flip: filter_append)
  ultimately show ?thesis
    using True by simp
next
  case False
  have "filter (\<lambda>y. f k = f y) ys
      = filter (\<lambda>y. f k = f y) (take p ys) @ filter (\<lambda>y. f k = f y) (drop p ys)"
    by (simp flip: filter_append)
  with False show ?thesis
    by simp
qed

lemma insert_at_point_sort_key:
  fixes f :: "'a \<Rightarrow> int"
  assumes "\<forall>y \<in> set pre. order x y = f x - f y"
  shows "(let ys = sort_key f pre; left = insertion_point order x ys 0 (length ys)
          in take left ys @ x # drop left ys) = sort_key f (pre @ [x])"
proof -
  define ys where "ys = sort_key f pre"
  define p where "p = insertion_point order x ys 0 (length ys)"
  have "sorted (map f ys)"
    by (simp add: ys_def)
  moreover have "\<forall>y \<in> set ys. order x y = f x - f y"
    using assms by (simp add: ys_def)
  ultimately have p: "p \<le> length ys" "\<forall>i < p. f (ys ! i) \<le> f x"
    "\<forall>i. p \<le> i \<longrightarrow> i < length ys \<longrightarrow> f x < f (ys ! i)"
    using insertion_point_correct [of f ys order x 0 "length ys"]
    by (simp_all add: p_def)
  have "sort_key f (pre @ [x]) = take p ys @ x # drop p ys"
  proof (rule properties_for_sort_key)
    have "mset (take p ys) + mset (drop p ys) = mset ys"
      by (metis append_take_drop_id mset_append)
    then show "mset (take p ys @ x # drop p ys) = mset (pre @ [x])"
      by (simp add: ys_def)
  next
    fix k
    have "filter (\<lambda>y. f k = f y) ys = filter (\<lambda>y. f k = f y) pre"
      using sort_key_stable [of f "f k" pre] by (simp add: ys_def eq_commute)
    then show "filter (\<lambda>y. f k = f y) (take p ys @ x # drop p ys)
        = filter (\<lambda>y. f k = f y) (pre @ [x])"
      using insert_at_point_stable [OF p(3), of k] by simp
  next
    show "sorted (map f (take p ys @ x # drop p ys))"
      using \<open>sorted (map f ys)\<close> p by (rule insert_at_point_sorted)
  qed
  then show ?thesis
    by (simp add: ys_def p_def Let_def)
qed

lemma binary_insertion_sort_sort_key:
  fixes f :: "'a \<Rightarrow> int"
  assumes "\<forall>a \<in> set pre \<union> set rest. \<forall>b \<in> set pre \<union> set rest. order a b = f a - f b"
  shows "binary_insertion_sort order (sort_key f pre) rest = sort_key f (pre @ rest)"
  using assms
proof (induction rest arbitrary: pre)
  case Nil
  show ?case by simp
next
  case (Cons x rest)
  from Cons.prems have "\<forall>y \<in> set pre. order x y = f x - f y"
    by simp
  then have step: "(let ys = sort_key f pre; left = insertion_point order x ys 0 (length ys)
          in take left ys @ x # drop left ys) = sort_key f (pre @ [x])"
    by (rule insert_at_point_sort_key)
  from Cons.prems have "\<forall>a \<in> set (pre @ [x]) \<union> set rest.
      \<forall>b \<in> set (pre @ [x]) \<union> set rest. order a b = f a - f b"
    by simp
  then have "binary_insertion_sort order (sort_key f (pre @ [x])) rest
      = sort_key f ((pre @ [x]) @ rest)"
    by (rule Cons.IH)
  with step show ?case
    by (simp add: Let_def)
qed
lemma count_run_le: "count_run order d previous rest \<le> length rest"
  by (induction rest arbitrary: previous) simp_all

lemma count_run_ascending:
  fixes f :: "'a \<Rightarrow> int"
  assumes "\<forall>a \<in> insert previous (set rest). \<forall>b \<in> insert previous (set rest).
             order a b = f a - f b"
  shows "sorted (map f (previous # take (count_run order False previous rest) rest))"
  using assms
proof (induction rest arbitrary: previous)
  case Nil
  show ?case by simp
next
  case (Cons current rest)
  from Cons.prems have ord: "order current previous = f current - f previous"
    by simp
  from Cons.prems have "\<forall>a \<in> insert current (set rest). \<forall>b \<in> insert current (set rest).
      order a b = f a - f b"
    by simp
  then have "sorted (map f (current # take (count_run order False current rest) rest))"
    by (rule Cons.IH)
  with ord show ?case
    by auto
qed

lemma count_run_descending:
  fixes f :: "'a \<Rightarrow> int"
  assumes "\<forall>a \<in> insert previous (set rest). \<forall>b \<in> insert previous (set rest).
             order a b = f a - f b"
  shows "sorted_wrt (>) (map f (previous # take (count_run order True previous rest) rest))"
  using assms
proof (induction rest arbitrary: previous)
  case Nil
  show ?case by simp
next
  case (Cons current rest)
  from Cons.prems have ord: "order current previous = f current - f previous"
    by simp
  from Cons.prems have "\<forall>a \<in> insert current (set rest). \<forall>b \<in> insert current (set rest).
      order a b = f a - f b"
    by simp
  then have "sorted_wrt (>) (map f (current # take (count_run order True current rest) rest))"
    by (rule Cons.IH)
  with ord show ?case
    by auto
qed

lemma filter_rev_distinct_keys:
  fixes f :: "'a \<Rightarrow> int"
  assumes "sorted_wrt (>) (map f r)"
  shows "filter (\<lambda>y. f k = f y) (rev r) = filter (\<lambda>y. f k = f y) r"
  using assms
proof (induction r)
  case Nil
  show ?case by simp
next
  case (Cons a r)
  then have IH: "filter (\<lambda>y. f k = f y) (rev r) = filter (\<lambda>y. f k = f y) r"
    by simp
  show ?case
  proof (cases "f k = f a")
    case True
    from Cons.prems have "\<forall>y \<in> set r. f y < f a"
      by simp
    with True have "filter (\<lambda>y. f k = f y) r = []"
      by (auto simp add: filter_empty_conv)
    with IH True show ?thesis by simp
  next
    case False
    with IH show ?thesis by simp
  qed
qed

lemma descending_run_sort_key:
  fixes f :: "'a \<Rightarrow> int"
  assumes "sorted_wrt (>) (map f r)"
  shows "sort_key f r = rev r"
proof (rule properties_for_sort_key)
  show "mset (rev r) = mset r" by simp
next
  fix k
  show "filter (\<lambda>y. f k = f y) (rev r) = filter (\<lambda>y. f k = f y) r"
    using assms by (rule filter_rev_distinct_keys)
next
  from assms have "sorted_wrt (\<lambda>a b. b < a) (map f r)"
    by simp
  then have "sorted_wrt (<) (rev (map f r))"
    by (simp add: sorted_wrt_rev)
  then show "sorted (map f (rev r))"
    by (simp add: rev_map strict_sorted_imp_sorted)
qed

lemma sort_js_sort_key:
  fixes f :: "'a \<Rightarrow> int"
  assumes "\<forall>a \<in> set xs. \<forall>b \<in> set xs. sort_compare comparefn a b = f a - f b"
  shows "sort_js comparefn xs = sort_key f xs"
proof (cases xs)
  case Nil
  then show ?thesis by (simp add: sort_js_def)
next
  case outer: (Cons x0 tail)
  show ?thesis
  proof (cases tail)
    case Nil
    with outer show ?thesis by (simp add: sort_js_def)
  next
    case (Cons x1 rest)
    define order where "order = sort_compare comparefn"
    define d where "d = (order x1 x0 < 0)"
    define n where "n = 2 + count_run order d x1 rest"
    have xs: "xs = x0 # x1 # rest"
      using outer Cons by simp
    have cons: "\<forall>a \<in> set xs. \<forall>b \<in> set xs. order a b = f a - f b"
      using assms by (simp add: order_def)
    then have ord01: "order x1 x0 = f x1 - f x0"
      by (simp add: xs)
    from cons have inner: "\<forall>a \<in> insert x1 (set rest). \<forall>b \<in> insert x1 (set rest).
        order a b = f a - f b"
      by (simp add: xs)
    have n_le: "n \<le> length xs"
      using count_run_le [of order d x1 rest] by (simp add: n_def xs)
    have run: "take n xs = x0 # x1 # take (count_run order d x1 rest) rest"
      by (simp add: n_def xs)
    have split: "\<forall>a \<in> set (take n xs) \<union> set (drop n xs).
        \<forall>b \<in> set (take n xs) \<union> set (drop n xs). order a b = f a - f b"
      using cons by (simp flip: set_append)
    have sorted_run: "sort_key f (take n xs) = (if d then rev (take n xs) else take n xs)"
    proof (cases d)
      case True
      then have "f x1 < f x0"
        using ord01 by (simp add: d_def)
      moreover have "sorted_wrt (>) (map f (x1 # take (count_run order True x1 rest) rest))"
        using inner by (rule count_run_descending)
      ultimately have "sorted_wrt (>) (map f (take n xs))"
        using True by (auto simp add: run)
      then show ?thesis
        using True by (simp add: descending_run_sort_key)
    next
      case False
      then have "f x0 \<le> f x1"
        using ord01 by (simp add: d_def)
      moreover have "sorted (map f (x1 # take (count_run order False x1 rest) rest))"
        using inner by (rule count_run_ascending)
      ultimately have "sorted (map f (take n xs))"
        using False by (auto simp add: run)
      then show ?thesis
        using False by (simp add: sort_key_id_if_sorted)
    qed
    have made: "count_and_make_run order xs
        = (if d then rev (take n xs) @ drop n xs else xs, n)"
      by (simp add: count_and_make_run_def xs d_def n_def Let_def)
    have "sort_js comparefn xs
        = binary_insertion_sort order (sort_key f (take n xs)) (drop n xs)"
      using n_le
      by (simp add: sort_js_def made sorted_run flip: order_def) (simp add: xs)
    also have "\<dots> = sort_key f (take n xs @ drop n xs)"
      using split by (rule binary_insertion_sort_sort_key)
    finally show ?thesis
      by simp
  qed
qed
lemma length_binary_insertion_sort:
  "length (binary_insertion_sort order work rest) = length work + length rest"
  by (induction rest arbitrary: work) (simp_all add: Let_def)

lemma length_sort_js: "length (sort_js comparefn xs) = length xs"
proof (cases xs)
  case Nil
  then show ?thesis by (simp add: sort_js_def)
next
  case outer: (Cons x0 tail)
  show ?thesis
  proof (cases tail)
    case Nil
    with outer show ?thesis by (simp add: sort_js_def)
  next
    case (Cons x1 rest)
    obtain work n where made: "count_and_make_run (sort_compare comparefn) xs = (work, n)"
      by (cases "count_and_make_run (sort_compare comparefn) xs")
    then have "length work = length xs"
      using count_run_le [of "sort_compare comparefn" _ x1 rest] outer Cons
      by (auto simp add: count_and_make_run_def Let_def split: if_splits)
    moreover have "\<not> length xs < 2"
      using outer Cons by simp
    ultimately show ?thesis
      by (simp add: sort_js_def made length_binary_insertion_sort)
  qed
qed

lemma length_topIssues: "length (topIssues vs) = min 5 (length vs)"
  by (simp add: topIssues_def length_sort_js min.commute)

lemma compare_recognized:
  "recognized a \<Longrightarrow> recognized b \<Longrightarrow>
     sort_compare compare_impact a b = severity_rank a - severity_rank b"
  by (auto simp add: recognized_def sort_compare_def compare_impact_def severity_rank_def
      impactOrder_def)

lemma topIssues_recognized:
  assumes "\<forall>v \<in> set vs. recognized v"
  shows "topIssues vs = take 5 (sort_key severity_rank vs)"
proof -
  from assms have "\<forall>a \<in> set vs. \<forall>b \<in> set vs.
      sort_compare compare_impact a b = severity_rank a - severity_rank b"
    by (simp add: compare_recognized)
  then have "sort_js compare_impact vs = sort_key severity_rank vs"
    by (rule sort_js_sort_key)
  then show ?thesis
    by (simp add: topIssues_def)
qed

lemma rank_sorted_nondecreasing:
  assumes "sorted (map severity_rank vs)"
  shows "rank_nondecreasing vs"
proof -
  from assms have "sorted_wrt (\<lambda>a b. severity_rank a \<le> severity_rank b) vs"
    by (simp add: sorted_map)
  then show ?thesis
    unfolding rank_nondecreasing_def
    by (rule sorted_wrt_mono_rel [rotated])
      (auto simp add: severity_rank_def split: option.splits)
qed

lemma impact_is_rank:
  assumes "recognized v" and "impactOrder s = Some k"
  shows "impact v = s \<longleftrightarrow> severity_rank v = k"
  using assms
  by (auto simp add: recognized_def severity_rank_def impactOrder_def split: if_splits)

lemma bucket_of_sorted:
  assumes "\<forall>v \<in> set vs. recognized v"
  shows "filter (\<lambda>v. impact v = s) (sort_key severity_rank vs) = filter (\<lambda>v. impact v = s) vs"
proof (cases "impactOrder s")
  case None
  with assms have "\<forall>v \<in> set vs. impact v \<noteq> s"
    by (auto simp add: recognized_def impactOrder_def)
  then show ?thesis
    by (simp add: filter_empty_conv [THEN iffD2])
next
  case (Some k)
  have "filter (\<lambda>v. impact v = s) (sort_key severity_rank vs)
      = filter (\<lambda>v. severity_rank v = k) (sort_key severity_rank vs)"
    using assms Some by (intro filter_cong refl) (simp add: impact_is_rank)
  also have "\<dots> = filter (\<lambda>v. severity_rank v = k) vs"
    by (rule sort_key_stable)
  also have "\<dots> = filter (\<lambda>v. impact v = s) vs"
    using assms Some by (intro filter_cong refl) (simp add: impact_is_rank)
  finally show ?thesis .
qed

lemma topIssues_properties:
  assumes "\<forall>v \<in> set vs. recognized v"
  shows "(\<forall>v \<in> set (topIssues vs). recognized v) \<and>
         rank_nondecreasing (topIssues vs) \<and>
         (\<forall>s. prefix (filter (\<lambda>v. impact v = s) (topIssues vs))
                (filter (\<lambda>v. impact v = s) vs))"
proof -
  note top = topIssues_recognized [OF assms]
  have "set (topIssues vs) \<subseteq> set vs"
    unfolding top using set_take_subset [of 5 "sort_key severity_rank vs"] by simp
  with assms have all: "\<forall>v \<in> set (topIssues vs). recognized v"
    by blast
  have "sorted (map severity_rank (take 5 (sort_key severity_rank vs)))"
    by (simp add: sorted_wrt_take flip: take_map)
  then have sorted: "rank_nondecreasing (topIssues vs)"
    unfolding top by (rule rank_sorted_nondecreasing)
  have bucket: "prefix (filter (\<lambda>v. impact v = s) (topIssues vs))
      (filter (\<lambda>v. impact v = s) vs)" for s
  proof -
    have "prefix (filter (\<lambda>v. impact v = s) (take 5 (sort_key severity_rank vs)))
        (filter (\<lambda>v. impact v = s) (sort_key severity_rank vs))"
      by (intro filter_mono_prefix take_is_prefix)
    then show ?thesis
      by (simp add: top bucket_of_sorted [OF assms])
  qed
  from all sorted bucket show ?thesis
    by blast
qed

text \<open>
  C4. The claim speaks of every raw violation list. On the page with an unranked rule
  between a minor and a critical one the comparator answers \<open>NaN\<close> for both neighbouring
  pairs, the array counts as sorted already, and the top issues list the minor violation
  (rank 3) before the critical one (rank 0): whatever place the unranked entry is given,
  the ranks decrease.
\<close>

theorem top_issues_unranked_counterexample:
  "fst (getSummary unranked_env (Some example_args))
     = Inr \<lparr>content = [Text (stringify unranked_env
              (summary unranked_env ''https://example.com'' unranked_results))],
            isError = False\<rparr> \<and>
   map impact (topIssues (violations unranked_results))
     = [Severity ''minor'', NullImpact, Severity ''critical''] \<and>
   \<not> rank_nondecreasing (topIssues (violations unranked_results))"
  by (simp add: getSummary_def getSummary_try_def getSummary_catch_def run_defs
      unranked_env_def example_env_def example_args_def unranked_results_def
      topIssues_def sort_js_def count_and_make_run_def sort_compare_def compare_impact_def
      impactOrder_def example_issue_def rank_nondecreasing_def)

text \<open>
  C4, as amended. In the summary of a successful run \<open>topIssues\<close> has
  \<open>min 5 totalIssues\<close> entries, whatever the violations are. When every violation has one
  of the four severities, the top issues are the first five of the violations sorted
  stably by rank: their ranks never decrease, and the top issues of each severity are the
  first violations of that severity, in the engine's order.
\<close>

theorem top_issues_sorted_when_recognized:
  assumes "getSummary e (Some a) = (Inr r, tr)" and "\<not> isError r"
  shows "\<exists>u results. url a = Some u \<and> analyze e u None = Inr results \<and>
           content r = [Text (stringify e (summary e u results))] \<and>
           get (summary e u results) ''topIssues''
             = Some (JArr (map topIssue (topIssues (violations results)))) \<and>
           length (topIssues (violations results)) = min 5 (length (violations results)) \<and>
           ((\<forall>v \<in> set (violations results). recognized v) \<longrightarrow>
              topIssues (violations results)
                = take 5 (sort_key severity_rank (violations results)) \<and>
              (\<forall>v \<in> set (topIssues (violations results)). recognized v) \<and>
              rank_nondecreasing (topIssues (violations results)) \<and>
              (\<forall>s. prefix (filter (\<lambda>v. impact v = s) (topIssues (violations results)))
                     (filter (\<lambda>v. impact v = s) (violations results))))"
proof -
  from summary_success [OF assms] obtain u results where
    ok: "url a = Some u" "analyze e u None = Inr results"
      "r = \<lparr>content = [Text (stringify e (summary e u results))], isError = False\<rparr>"
    by blast
  have top: "get (summary e u results) ''topIssues''
      = Some (JArr (map topIssue (topIssues (violations results))))"
    by (simp add: summary_def get_def)
  from ok top show ?thesis
    using length_topIssues [of "violations results"]
      topIssues_recognized [of "violations results"]
      topIssues_properties [of "violations results"]
    by (intro exI [of _ u] exI [of _ results]) simp
qed

theorem top_issues_sorted_when_recognized_witness:
  "getSummary busy_env (Some example_args)
     = (Inr \<lparr>content = [Text ''{}''], isError = False\<rparr>,
        [(Launch, True), (NewPage, True), (SetViewport 1280 800, True),
         (Goto ''https://example.com'' 30000, True), (Analyze None, True), (Close, True)]) \<and>
   \<not> isError \<lparr>content = [Text ''{}''], isError = False\<rparr> \<and>
   list_all recognized (violations busy_results) \<and>
   length (topIssues (violations busy_results)) = 5 \<and>
   rank_nondecreasing (topIssues (violations busy_results)) \<and>
   prefix (filter (\<lambda>v. impact v = Severity ''critical'') (topIssues (violations busy_results)))
     (filter (\<lambda>v. impact v = Severity ''critical'') (violations busy_results))"
proof -
  have ok: "\<not> isError \<lparr>content = [Text ''{}''], isError = False\<rparr>"
    by simp
  have all: "\<forall>v \<in> set (violations busy_results). recognized v"
    by (simp add: busy_results_def recognized_def example_issue_def)
  from top_issues_sorted_when_recognized [OF busy_summary ok] obtain u results where
    r: "analyze busy_env u None = Inr results"
      "length (topIssues (violations results)) = min 5 (length (violations results))"
      "(\<forall>v \<in> set (violations results). recognized v) \<longrightarrow>
         topIssues (violations results)
           = take 5 (sort_key severity_rank (violations results)) \<and>
         (\<forall>v \<in> set (topIssues (violations results)). recognized v) \<and>
         rank_nondecreasing (topIssues (violations results)) \<and>
         (\<forall>s. prefix (filter (\<lambda>v. impact v = s) (topIssues (violations results)))
                (filter (\<lambda>v. impact v = s) (violations results)))"
    by (elim exE conjE) (rule that)
  from r(1) have res: "results = busy_results"
    by (simp add: busy_env_def)
  from r(2) have len: "length (topIssues (violations busy_results)) = 5"
    by (simp add: res busy_results_def)
  from r(3) all have
    sorted: "rank_nondecreasing (topIssues (violations busy_results))" and
    bucket: "\<forall>s. prefix (filter (\<lambda>v. impact v = s) (topIssues (violations busy_results)))
                (filter (\<lambda>v. impact v = s) (violations busy_results))"
    unfolding res by blast+
  from bucket have "prefix
      (filter (\<lambda>v. impact v = Severity ''critical'') (topIssues (violations busy_results)))
      (filter (\<lambda>v. impact v = Severity ''critical'') (violations busy_results))"
    by (rule spec)
  with all len sorted show ?thesis
    using busy_summary by (simp add: list_all_iff)
qed

end
